theory Spec2Isabelle
  imports Main "HOL-Library.Char_ord" "HOL-Library.List_Lexorder"
begin

section \<open>Data model\<close>

text \<open>
  The sources embedded here are \<^verbatim>\<open>packages/core/src/channel.ts\<close> (class
  \<^verbatim>\<open>SyncChannel\<close>) and \<^verbatim>\<open>packages/core/src/index.ts\<close> (class
  \<^verbatim>\<open>MessageService\<close>).

  Every \<^verbatim>\<open>async\<close> method is run to completion before the next call starts, so a
  call is a function from the state before it to the state after it. The one place
  where the suspension point is kept is the loop of \<^verbatim>\<open>flush\<close>: the events that
  are pushed to the buffer while an iteration awaits the store are a parameter of it.
\<close>

subsection \<open>Messages\<close>

text \<open>
  \<^verbatim>\<open>Universal.Message\<close>, the fields the sources read: \<^verbatim>\<open>messageId\<close> (the cursor and
  the comparison with \<^verbatim>\<open>rear\<close>), \<^verbatim>\<open>content\<close> and \<^verbatim>\<open>timestamp\<close> (milliseconds).
\<close>

record UMessage =
  messageId :: string
  content :: string
  timestamp :: int

text \<open>
  \<^verbatim>\<open>Session\<close>: a live event. A session is pushed to the buffer of
  \<^verbatim>\<open>Universal.Message\<close>s as it is; \<open>Session_message\<close> is that view of it.
\<close>

record Session =
  platform :: string
  guildId :: string
  channelId :: string
  selfId :: string
  messageId :: string
  content :: string
  timestamp :: int
  channelName :: "string option"

definition Session_message :: "Session \<Rightarrow> UMessage" where
  "Session_message s =
     \<lparr>UMessage.messageId = Session.messageId s,
      UMessage.content = Session.content s,
      UMessage.timestamp = Session.timestamp s\<rparr>"

text \<open>\<^verbatim>\<open>session.cid\<close>, the getter of the framework: platform, a colon, the channel id.\<close>

definition cid :: "Session \<Rightarrow> string" where
  "cid s = Session.platform s @ '':'' @ Session.channelId s"

text \<open>
  A row of the message table, with the columns that \<^verbatim>\<open>model.extend\<close> declares in
  \<^verbatim>\<open>index.ts\<close>. \<^verbatim>\<open>deleted\<close> is an integer column; the timestamps are milliseconds.
\<close>

record Message =
  id :: string
  content :: string
  platform :: string
  guildId :: string
  messageId :: string
  userId :: string
  timestamp :: int
  quoteId :: string
  username :: string
  nickname :: string
  channelId :: string
  selfId :: string
  lastUpdated :: int
  deleted :: int

subsection \<open>Errors\<close>

text \<open>
  What a call can throw: \<^verbatim>\<open>TypeError\<close> is raised by the language itself (a property
  read on \<^verbatim>\<open>undefined\<close>), the other two are rejections of the bot and of the
  database.
\<close>

datatype error = TypeError | BotError | DatabaseError

subsection \<open>The channel actor\<close>

datatype SyncStatus = SYNCING | SYNCED | FAILED

text \<open>
  \<^verbatim>\<open>ChannelData\<close>. The optional fields are options. \<^verbatim>\<open>channelId\<close> is an option too:
  the constructor stores its fourth parameter, and a caller that passes three arguments
  leaves it \<^verbatim>\<open>undefined\<close>, which is \<open>None\<close> here.
\<close>

record ChannelData =
  platform :: string
  guildId :: string
  channelId :: "string option"
  assignee :: "string option"
  channelName :: "string option"
  initial :: "string option"

text \<open>
  The two promises of the actor are kept by their outcome: \<open>initTask\<close> is \<open>None\<close>
  before \<^verbatim>\<open>_init\<close> has been started, then \<open>Some None\<close> (fulfilled) or
  \<open>Some (Some e)\<close> (rejected with \<open>e\<close>); \<open>queueTask\<close> is \<open>None\<close> while the chain of
  flushes is fulfilled and \<open>Some e\<close> once a link of it was rejected.
\<close>

record SyncChannel =
  data :: ChannelData
  status :: SyncStatus
  buffer :: "UMessage list"
  initTask :: "error option option"
  queueTask :: "error option"

text \<open>The constructor: line 30 to 32 of \<^verbatim>\<open>channel.ts\<close>, with the field initialisers.\<close>

definition SyncChannel_new :: "string \<Rightarrow> string \<Rightarrow> string option \<Rightarrow> SyncChannel" where
  "SyncChannel_new p g c =
     \<lparr>data = \<lparr>ChannelData.platform = p, ChannelData.guildId = g, ChannelData.channelId = c,
               assignee = None, ChannelData.channelName = None, initial = None\<rparr>,
      status = SYNCING, buffer = [], initTask = None, queueTask = None\<rparr>"

subsection \<open>The context\<close>

text \<open>
  The database: its tables by name, and whether it answers. Every operation on a
  database that does not answer is rejected with \<open>DatabaseError\<close>.
\<close>

record database =
  tables :: "string \<Rightarrow> Message list"
  answers :: bool

text \<open>
  The events: \<^verbatim>\<open>chat/channel\<close> and \<^verbatim>\<open>chat/message\<close>, which \<^verbatim>\<open>channel.ts\<close> emits with
  the actor (its data here), and the three that the interface \<^verbatim>\<open>Events\<close> of
  \<^verbatim>\<open>index.ts\<close> declares.
\<close>

datatype event =
  chat_channel ChannelData
  | chat_message "Message list" ChannelData
  | messages_synced string
  | messages_syncFailed string error
  | messages_syncing string

text \<open>
  A bot is its \<^verbatim>\<open>getMessageList (channelId, next)\<close>: a page of messages or a rejection.
\<close>

type_synonym bot = "string option \<Rightarrow> string option \<Rightarrow> error + UMessage list"

text \<open>
  \<^verbatim>\<open>MessageService.Config\<close>: the optional \<^verbatim>\<open>maxAge\<close>.
\<close>

record Config =
  maxAge :: "int option"

text \<open>
  The context \<^verbatim>\<open>ctx\<close> as the actor uses it: \<^verbatim>\<open>ctx.bots\<close>, \<^verbatim>\<open>ctx.database\<close>,
  \<^verbatim>\<open>ctx.messages.stopped\<close>, \<^verbatim>\<open>ctx.messages.config\<close>, the clock behind
  \<^verbatim>\<open>Date.now()\<close>, the events emitted and the errors handed to \<^verbatim>\<open>logger.warn\<close> so far,
  and the channel table that \<^verbatim>\<open>database.getChannel\<close> reads: the assignee of the row of
  a platform and a channel id, \<open>None\<close> when the table has no such row.

  \<^verbatim>\<open>ctx.messages.config\<close> is an option: the constructor of \<^verbatim>\<open>MessageService\<close> (lines 24
  to 43 of \<^verbatim>\<open>index.ts\<close>) passes the context, the name and a flag to the constructor of
  \<^verbatim>\<open>Service\<close> and does nothing with its parameter \<^verbatim>\<open>config\<close>, so the service it builds
  has no \<^verbatim>\<open>config\<close>, which is \<open>None\<close> here.

  \<open>Message_adapt\<close> is \<^verbatim>\<open>Message.adapt\<close> of \<^verbatim>\<open>./message\<close>, a file that is not among the
  sources: the conversion of a \<^verbatim>\<open>Universal.Message\<close>, a platform and a guild id to a
  row is a parameter.
\<close>

record ctx =
  bots :: "string \<Rightarrow> bot option"
  database :: database
  stopped :: bool
  config :: "Config option"
  now :: int
  emitted :: "event list"
  warned :: "error list"
  channel_table :: "string \<times> string \<Rightarrow> string option"
  Message_adapt :: "UMessage \<Rightarrow> string \<Rightarrow> string \<Rightarrow> Message"

definition emit :: "ctx \<Rightarrow> event \<Rightarrow> ctx" where
  "emit c e = c\<lparr>emitted := emitted c @ [e]\<rparr>"

section \<open>The database operations the sources call\<close>

text \<open>
  \<^verbatim>\<open>where (pick (this.data, ['platform', 'channelId']))\<close>: \<^verbatim>\<open>pick\<close> leaves out a key
  whose value is \<^verbatim>\<open>undefined\<close>, so without a channel id the query selects the rows of
  the platform, and with one the rows of the platform and the channel.
\<close>

definition of_channel :: "ChannelData \<Rightarrow> Message \<Rightarrow> bool" where
  "of_channel d m \<longleftrightarrow>
     Message.platform m = ChannelData.platform d \<and>
     (case ChannelData.channelId d of None \<Rightarrow> True | Some k \<Rightarrow> Message.channelId m = k)"

text \<open>
  \<^verbatim>\<open>select (table).where (...).orderBy ('id', dir).limit (n).execute ()\<close>; \<open>desc\<close> is the
  direction.
\<close>

definition db_select :: "database \<Rightarrow> string \<Rightarrow> ChannelData \<Rightarrow> bool \<Rightarrow> nat \<Rightarrow> error + Message list" where
  "db_select db t d desc n =
     (if answers db
      then let rows = sort_key Message.id (filter (of_channel d) (tables db t))
           in Inr (take n (if desc then rev rows else rows))
      else Inl DatabaseError)"

text \<open>\<^verbatim>\<open>upsert\<close>: a record replaces the row of its primary key \<^verbatim>\<open>id\<close>, or is added.\<close>

fun upsert_row :: "Message list \<Rightarrow> Message \<Rightarrow> Message list" where
  "upsert_row [] m = [m]"
| "upsert_row (r # rs) m = (if Message.id r = Message.id m then m # rs else r # upsert_row rs m)"

definition db_upsert :: "database \<Rightarrow> string \<Rightarrow> Message list \<Rightarrow> error + database" where
  "db_upsert db t ms =
     (if answers db
      then Inr (db\<lparr>tables := (tables db)(t := foldl upsert_row (tables db t) ms)\<rparr>)
      else Inl DatabaseError)"

section \<open>SyncChannel\<close>

subsection \<open>accept\<close>

text \<open>
  \<^verbatim>\<open>!this.data.assignee\<close> holds for \<^verbatim>\<open>undefined\<close> and for the empty string.
  The result is whether the session is rejected (\<^verbatim>\<open>return true\<close>; the other paths
  return \<^verbatim>\<open>undefined\<close>, which the caller reads as false), with the actor after the call.
\<close>

definition falsy :: "string option \<Rightarrow> bool" where
  "falsy v \<longleftrightarrow> (case v of None \<Rightarrow> True | Some s \<Rightarrow> s = [])"

definition accept :: "SyncChannel \<Rightarrow> Session \<Rightarrow> bool \<times> SyncChannel" where
  "accept ch s =
     (if \<not> falsy (assignee (data ch)) \<and> assignee (data ch) \<noteq> Some (Session.selfId s)
      then (True, ch)
      else
        let ch1 = (if falsy (assignee (data ch))
                   then ch\<lparr>data := (data ch)\<lparr>assignee := Some (Session.selfId s)\<rparr>\<rparr>
                   else ch)
        in (False,
            if falsy (Session.channelName s) then ch1
            else ch1\<lparr>data := (data ch1)\<lparr>ChannelData.channelName := Session.channelName s\<rparr>\<rparr>))"

subsection \<open>adapt\<close>

text \<open>
  The test of line 94 where the service has a \<^verbatim>\<open>config\<close>: a row is kept when its age
  is below \<^verbatim>\<open>maxAge\<close>; a comparison with a \<^verbatim>\<open>maxAge\<close> that is \<^verbatim>\<open>undefined\<close> is false.
  The clock is the field \<open>now\<close> of the context: every \<^verbatim>\<open>Date.now()\<close> of a call reads
  the same time.
\<close>

definition fresh :: "ctx \<Rightarrow> Message \<Rightarrow> bool" where
  "fresh c m \<longleftrightarrow>
     (case config c of
        None \<Rightarrow> False
      | Some cfg \<Rightarrow> (case maxAge cfg of None \<Rightarrow> False | Some age \<Rightarrow> now c - Message.timestamp m < age))"

text \<open>
  \<^verbatim>\<open>data.filter (...)\<close>, lines 93 to 95: the callback runs for each row and reads
  \<^verbatim>\<open>this.ctx.messages.config.maxAge\<close>. Without a \<^verbatim>\<open>config\<close> the first row makes it
  throw a \<^verbatim>\<open>TypeError\<close>; where there is no row the callback does not run.
\<close>

definition retained :: "ctx \<Rightarrow> Message list \<Rightarrow> error + Message list" where
  "retained c rows =
     (if rows = [] then Inr []
      else case config c of None \<Rightarrow> Inl TypeError | Some cfg \<Rightarrow> Inr (filter (fresh c) rows))"

definition adapted :: "ctx \<Rightarrow> SyncChannel \<Rightarrow> UMessage list \<Rightarrow> Message list" where
  "adapted c ch buf =
     map (\<lambda>s. Message_adapt c s (ChannelData.platform (data ch)) (ChannelData.guildId (data ch))) buf"

text \<open>
  \<^verbatim>\<open>adapt\<close> writes the filtered rows and returns all of them. The filter is the
  argument of \<^verbatim>\<open>upsert\<close>: when it throws, \<^verbatim>\<open>upsert\<close> is not called. An error leaves
  the context as it was.
\<close>

definition adapt :: "ctx \<Rightarrow> SyncChannel \<Rightarrow> UMessage list \<Rightarrow> (error + Message list) \<times> ctx" where
  "adapt c ch buf =
     (let rows = adapted c ch buf
      in case retained c rows of
           Inl e \<Rightarrow> (Inl e, c)
         | Inr kept \<Rightarrow>
             (case db_upsert (database c) ''chat.message'' kept of
                Inl e \<Rightarrow> (Inl e, c)
              | Inr db \<Rightarrow> (Inr rows, c\<lparr>database := db\<rparr>)))"

subsection \<open>flush\<close>

text \<open>
  One iteration takes the whole buffer (\<^verbatim>\<open>splice (0)\<close>), awaits \<^verbatim>\<open>adapt\<close> and emits
  \<^verbatim>\<open>chat/message\<close> with the rows and the actor. \<open>arrivals\<close> lists, iteration by
  iteration, the events that \<^verbatim>\<open>queue\<close> pushes to the buffer while that iteration
  awaits; beyond the end of the list nothing arrives. The first component of the
  result is the error thrown, if any.
\<close>

function flush :: "ctx \<Rightarrow> SyncChannel \<Rightarrow> UMessage list list \<Rightarrow> error option \<times> ctx \<times> SyncChannel" where
  "flush c ch arrivals =
     (if buffer ch = [] then (None, c, ch)
      else
        let batch = buffer ch;
            ch1 = ch\<lparr>buffer := (case arrivals of [] \<Rightarrow> [] | a # _ \<Rightarrow> a)\<rparr>
        in case adapt c ch batch of
             (Inl e, c1) \<Rightarrow> (Some e, c1, ch1)
           | (Inr rows, c1) \<Rightarrow> flush (emit c1 (chat_message rows (data ch1))) ch1 (tl arrivals))"
  by pat_completeness auto
termination
  by (relation "measure (\<lambda>(c, ch, arrivals). length arrivals + (if buffer ch = [] then 0 else 1))")
     (auto split: list.splits)

declare flush.simps [simp del]

subsection \<open>syncHistory\<close>

text \<open>
  The key of \<^verbatim>\<open>ctx.bots\<close>: the template string prints an assignee that is
  \<^verbatim>\<open>undefined\<close> as the word.
\<close>

definition bot_key :: "ChannelData \<Rightarrow> string" where
  "bot_key d =
     ChannelData.platform d @ '':'' @ (case assignee d of None \<Rightarrow> ''undefined'' | Some a \<Rightarrow> a)"

text \<open>
  The \<^verbatim>\<open>for\<close> loop of lines 77 to 84 over the reversed page: a message whose id is
  \<^verbatim>\<open>rear\<close> leaves both loops (\<open>True\<close>), any other message is put in front of the
  buffer (\<^verbatim>\<open>unshift\<close>).
\<close>

fun syncHistory_for :: "string \<Rightarrow> UMessage list \<Rightarrow> UMessage list \<Rightarrow> bool \<times> UMessage list" where
  "syncHistory_for rear [] buf = (False, buf)"
| "syncHistory_for rear (m # ms) buf =
     (if UMessage.messageId m = rear then (True, buf) else syncHistory_for rear ms (m # buf))"

text \<open>
  The \<^verbatim>\<open>while (true)\<close> loop of lines 74 to 85. Nothing bounds the number of pages, so
  the loop is a partial function: \<open>None\<close> is a run that never leaves it. A run that
  leaves it gives the error thrown, if any, and the buffer as the loop left it.
  \<^verbatim>\<open>data[0].messageId\<close> on an empty page reads a property of \<^verbatim>\<open>undefined\<close>.
\<close>

partial_function (option) syncHistory_while ::
  "bot \<Rightarrow> string option \<Rightarrow> string \<Rightarrow> string option \<Rightarrow> UMessage list \<Rightarrow> (error option \<times> UMessage list) option" where
  "syncHistory_while b chan rear next buf =
     (case b chan next of
        Inl e \<Rightarrow> Some (Some e, buf)
      | Inr page \<Rightarrow>
          (case page of
             [] \<Rightarrow> Some (Some TypeError, buf)
           | first # _ \<Rightarrow>
               (case syncHistory_for rear (rev page) buf of
                  (found, buf1) \<Rightarrow>
                    if found then Some (None, buf1)
                    else syncHistory_while b chan rear (Some (UMessage.messageId first)) buf1)))"

declare syncHistory_while.simps [code]

text \<open>
  \<^verbatim>\<open>syncHistory\<close>: the bot of the assignee (a missing bot makes the first
  \<^verbatim>\<open>bot.getMessageList\<close> a \<^verbatim>\<open>TypeError\<close>), the loop, then \<^verbatim>\<open>flush\<close>.
\<close>

definition syncHistory ::
  "ctx \<Rightarrow> SyncChannel \<Rightarrow> string \<Rightarrow> string option \<Rightarrow> (error option \<times> ctx \<times> SyncChannel) option" where
  "syncHistory c ch rear next =
     (case bots c (bot_key (data ch)) of
        None \<Rightarrow> Some (Some TypeError, c, ch)
      | Some b \<Rightarrow>
          (case syncHistory_while b (ChannelData.channelId (data ch)) rear next (buffer ch) of
             None \<Rightarrow> None
           | Some (Some e, buf) \<Rightarrow> Some (Some e, c, ch\<lparr>buffer := buf\<rparr>)
           | Some (None, buf) \<Rightarrow> Some (flush c (ch\<lparr>buffer := buf\<rparr>) [])))"

subsection \<open>getHistory\<close>




subsection \<open>init\<close>

text \<open>
  \<^verbatim>\<open>_init\<close>: the oldest and the newest row of the channel, the backfill when there is
  a newest row, then \<^verbatim>\<open>SYNCED\<close>, \<^verbatim>\<open>data.initial\<close> and the \<^verbatim>\<open>chat/channel\<close> event.
\<close>

definition private_init ::
  "ctx \<Rightarrow> SyncChannel \<Rightarrow> Session option \<Rightarrow> (error option \<times> ctx \<times> SyncChannel) option" where
  "private_init c ch session =
     (case db_select (database c) ''chat.message'' (data ch) False 1 of
        Inl e \<Rightarrow> Some (Some e, c, ch)
      | Inr oldest \<Rightarrow>
          (case db_select (database c) ''chat.message'' (data ch) True 1 of
             Inl e \<Rightarrow> Some (Some e, c, ch)
           | Inr newest \<Rightarrow>
               (case (case newest of
                        [] \<Rightarrow> Some (None, c, ch)
                      | final # _ \<Rightarrow>
                          syncHistory c ch (Message.messageId final)
                            (map_option Session.messageId session)) of
                  None \<Rightarrow> None
                | Some (Some e, c1, ch1) \<Rightarrow> Some (Some e, c1, ch1)
                | Some (None, c1, ch1) \<Rightarrow>
                    let ch2 = ch1\<lparr>status := SYNCED,
                                   data := (data ch1)\<lparr>initial :=
                                     (case oldest of [] \<Rightarrow> None
                                      | first # _ \<Rightarrow> Some (Message.messageId first))\<rparr>\<rparr>
                    in Some (None, emit c1 (chat_channel (data ch2)), ch2))))"

text \<open>
  \<^verbatim>\<open>init\<close>: \<^verbatim>\<open>this._initTask ||= this._init (session)\<close>. A task that exists settles
  again the way it did.
\<close>

definition init ::
  "ctx \<Rightarrow> SyncChannel \<Rightarrow> Session option \<Rightarrow> (error option \<times> ctx \<times> SyncChannel) option" where
  "init c ch session =
     (case initTask ch of
        Some r \<Rightarrow> Some (r, c, ch)
      | None \<Rightarrow>
          (case private_init c ch session of
             None \<Rightarrow> None
           | Some (r, c1, ch1) \<Rightarrow> Some (r, c1, ch1\<lparr>initTask := Some r\<rparr>)))"

subsection \<open>ensure and queue\<close>

text \<open>
  \<^verbatim>\<open>ensure\<close>: nothing on a failed actor or a stopped service; an error of the callback
  is logged and the actor fails. The callback is a function of the state.
\<close>

definition ensure ::
  "ctx \<Rightarrow> SyncChannel \<Rightarrow> (ctx \<Rightarrow> SyncChannel \<Rightarrow> (error option \<times> ctx \<times> SyncChannel) option)
     \<Rightarrow> (ctx \<times> SyncChannel) option" where
  "ensure c ch callback =
     (if status ch = FAILED then Some (c, ch)
      else if stopped c then Some (c, ch)
      else
        (case callback c ch of
           None \<Rightarrow> None
         | Some (None, c1, ch1) \<Rightarrow> Some (c1, ch1)
         | Some (Some e, c1, ch1) \<Rightarrow> Some (c1\<lparr>warned := warned c1 @ [e]\<rparr>, ch1\<lparr>status := FAILED\<rparr>)))"

text \<open>
  The callback of \<^verbatim>\<open>queue\<close>, lines 49 to 56. \<^verbatim>\<open>this._queueTask.then (...)\<close> runs
  \<^verbatim>\<open>flush\<close> when the chain is fulfilled and passes the rejection on when it is not.
\<close>

definition queue_callback ::
  "Session \<Rightarrow> ctx \<Rightarrow> SyncChannel \<Rightarrow> (error option \<times> ctx \<times> SyncChannel) option" where
  "queue_callback s c ch =
     (case (if status ch = SYNCING then init c ch (Some s) else Some (None, c, ch)) of
        None \<Rightarrow> None
      | Some (Some e, c1, ch1) \<Rightarrow> Some (Some e, c1, ch1)
      | Some (None, c1, ch1) \<Rightarrow>
          if status ch1 = SYNCED
          then (case queueTask ch1 of
                  Some e \<Rightarrow> Some (Some e, c1, ch1)
                | None \<Rightarrow>
                    (case flush c1 ch1 [] of
                       (None, c2, ch2) \<Rightarrow> Some (None, c2, ch2)
                     | (Some e, c2, ch2) \<Rightarrow> Some (Some e, c2, ch2\<lparr>queueTask := Some e\<rparr>)))
          else Some (None, c1, ch1))"

definition queue :: "ctx \<Rightarrow> SyncChannel \<Rightarrow> Session \<Rightarrow> (ctx \<times> SyncChannel) option" where
  "queue c ch s =
     (case accept ch s of
        (rejected, ch1) \<Rightarrow>
          if rejected then Some (c, ch1)
          else ensure c (ch1\<lparr>buffer := buffer ch1 @ [Session_message s]\<rparr>) (queue_callback s))"

subsection \<open>getMessages\<close>


section \<open>MessageService\<close>

text \<open>The service: its context and the dictionary \<^verbatim>\<open>_channels\<close>.\<close>

record MessageService =
  ctx :: ctx
  channels :: "string \<Rightarrow> SyncChannel option"

text \<open>
  \<^verbatim>\<open>#onMessage\<close>, lines 102 to 107. For a channel without a row \<^verbatim>\<open>getChannel\<close>
  resolves to \<^verbatim>\<open>undefined\<close>, and taking \<^verbatim>\<open>assignee\<close> out of it throws a
  \<^verbatim>\<open>TypeError\<close>. The actor is created with three arguments: the context, the platform
  and the channel id of the session.
\<close>

definition onMessage :: "MessageService \<Rightarrow> Session \<Rightarrow> (error option \<times> MessageService) option" where
  "onMessage sv s =
     (if \<not> answers (database (ctx sv)) then Some (Some DatabaseError, sv)
      else
        (case channel_table (ctx sv) (Session.platform s, Session.channelId s) of
           None \<Rightarrow> Some (Some TypeError, sv)
         | Some a \<Rightarrow>
             if a \<noteq> Session.selfId s then Some (None, sv)
             else
               let ch = (case channels sv (cid s) of
                           Some ch \<Rightarrow> ch
                         | None \<Rightarrow> SyncChannel_new (Session.platform s) (Session.channelId s) None)
               in case queue (ctx sv) ch s of
                    None \<Rightarrow> None
                  | Some (c1, ch1) \<Rightarrow>
                      Some (None, sv\<lparr>ctx := c1, channels := (channels sv)(cid s \<mapsto> ch1)\<rparr>)))"

text \<open>
  \<^verbatim>\<open>database.set (table, query, update)\<close>: the update is applied to every row that the
  query selects.
\<close>

definition db_set ::
  "database \<Rightarrow> string \<Rightarrow> (Message \<Rightarrow> bool) \<Rightarrow> (Message \<Rightarrow> Message) \<Rightarrow> error + database" where
  "db_set db t query update =
     (if answers db
      then Inr (db\<lparr>tables := (tables db)(t := map (\<lambda>r. if query r then update r else r) (tables db t))\<rparr>)
      else Inl DatabaseError)"

text \<open>The listeners of \<^verbatim>\<open>message-deleted\<close> and \<^verbatim>\<open>message-updated\<close>, lines 59 to 77.\<close>

definition same_message :: "Session \<Rightarrow> Message \<Rightarrow> bool" where
  "same_message s r \<longleftrightarrow>
     Message.messageId r = Session.messageId s \<and> Message.platform r = Session.platform s"

definition on_message_deleted :: "MessageService \<Rightarrow> Session \<Rightarrow> error option \<times> MessageService" where
  "on_message_deleted sv s =
     (case db_set (database (ctx sv)) ''message'' (same_message s)
             (\<lambda>r. r\<lparr>deleted := 1, lastUpdated := now (ctx sv)\<rparr>) of
        Inl e \<Rightarrow> (Some e, sv)
      | Inr db \<Rightarrow> (None, sv\<lparr>ctx := (ctx sv)\<lparr>database := db\<rparr>\<rparr>))"

definition on_message_updated :: "MessageService \<Rightarrow> Session \<Rightarrow> error option \<times> MessageService" where
  "on_message_updated sv s =
     (case db_set (database (ctx sv)) ''message'' (same_message s)
             (\<lambda>r. r\<lparr>Message.content := Session.content s, lastUpdated := now (ctx sv)\<rparr>) of
        Inl e \<Rightarrow> (Some e, sv)
      | Inr db \<Rightarrow> (None, sv\<lparr>ctx := (ctx sv)\<lparr>database := db\<rparr>\<rparr>))"

section \<open>Runs of calls\<close>

text \<open>One \<^verbatim>\<open>queue\<close> call after the other, each on the state the one before left.\<close>

fun queue_all :: "ctx \<Rightarrow> SyncChannel \<Rightarrow> Session list \<Rightarrow> (ctx \<times> SyncChannel) option" where
  "queue_all c ch [] = Some (c, ch)"
| "queue_all c ch (s # ss) =
     (case queue c ch s of None \<Rightarrow> None | Some (c1, ch1) \<Rightarrow> queue_all c1 ch1 ss)"

section \<open>Notions of the statements\<close>

subsection \<open>The backfill\<close>

text \<open>
  A page holds \<^verbatim>\<open>rear\<close> when one of its messages has that id; then the loop puts in
  front of the buffer the messages of the page behind the last such message, and the
  whole page otherwise.
\<close>

definition has_rear :: "string \<Rightarrow> UMessage list \<Rightarrow> bool" where
  "has_rear rear page \<longleftrightarrow> rear \<in> UMessage.messageId ` set page"

definition after_rear :: "string \<Rightarrow> UMessage list \<Rightarrow> UMessage list" where
  "after_rear rear page = rev (takeWhile (\<lambda>m. UMessage.messageId m \<noteq> rear) (rev page))"

text \<open>
  The loop of \<^verbatim>\<open>syncHistory\<close> cut after \<open>n\<close> pages: \<open>None\<close> when \<open>n\<close> pages do not
  end it.
\<close>

fun syncHistory_upto ::
  "nat \<Rightarrow> bot \<Rightarrow> string option \<Rightarrow> string \<Rightarrow> string option \<Rightarrow> UMessage list
     \<Rightarrow> (error option \<times> UMessage list) option" where
  "syncHistory_upto 0 b chan rear next buf = None"
| "syncHistory_upto (Suc n) b chan rear next buf =
     (case b chan next of
        Inl e \<Rightarrow> Some (Some e, buf)
      | Inr page \<Rightarrow>
          if page = [] then Some (Some TypeError, buf)
          else if has_rear rear page then Some (None, after_rear rear page @ buf)
          else syncHistory_upto n b chan rear (Some (UMessage.messageId (hd page))) (page @ buf))"

text \<open>Strictly increasing time, for messages and for rows.\<close>

definition ascending :: "UMessage list \<Rightarrow> bool" where
  "ascending ms \<longleftrightarrow> sorted_wrt (<) (map UMessage.timestamp ms)"

definition ascending_rows :: "Message list \<Rightarrow> bool" where
  "ascending_rows rs \<longleftrightarrow> sorted_wrt (<) (map Message.timestamp rs)"

text \<open>
  A source that answers oldest first: \<open>T\<close> gives the time of every message id, a page
  is in strictly increasing time, and the page for a cursor holds messages older than
  the message of the cursor.
\<close>

definition chronological :: "bot \<Rightarrow> string option \<Rightarrow> (string \<Rightarrow> int) \<Rightarrow> bool" where
  "chronological b chan T \<longleftrightarrow>
     (\<forall>cursor page. b chan cursor = Inr page \<longrightarrow>
        ascending page \<and>
        (\<forall>m \<in> set page. T (UMessage.messageId m) = UMessage.timestamp m \<and>
           (\<forall>cur. cursor = Some cur \<longrightarrow> UMessage.timestamp m < T cur)))"

text \<open>
  The buffer is not older than the cursor: with a cursor, no message of the buffer is
  older than the message of the cursor; without one, the buffer is empty.
\<close>

definition not_before :: "string option \<Rightarrow> (string \<Rightarrow> int) \<Rightarrow> UMessage list \<Rightarrow> bool" where
  "not_before cursor T buf \<longleftrightarrow>
     (case cursor of None \<Rightarrow> buf = [] | Some cur \<Rightarrow> \<forall>m \<in> set buf. T cur \<le> UMessage.timestamp m)"

text \<open>The conversion keeps the time of a message.\<close>

definition keeps_time :: "ctx \<Rightarrow> bool" where
  "keeps_time c \<longleftrightarrow> (\<forall>m p g. Message.timestamp (Message_adapt c m p g) = UMessage.timestamp m)"

subsection \<open>The flush\<close>

text \<open>
  The table \<^verbatim>\<open>chat.message\<close> after the batches \<open>bs\<close> were written one after the other,
  and the context after they were written and announced.
\<close>

definition written :: "ctx \<Rightarrow> SyncChannel \<Rightarrow> Message list \<Rightarrow> UMessage list list \<Rightarrow> Message list" where
  "written c ch rows bs =
     foldl (\<lambda>rs b. foldl upsert_row rs (filter (fresh c) (adapted c ch b))) rows bs"

definition flushed :: "ctx \<Rightarrow> SyncChannel \<Rightarrow> UMessage list list \<Rightarrow> ctx" where
  "flushed c ch bs =
     c\<lparr>database := (database c)\<lparr>tables := (tables (database c))
          (''chat.message'' := written c ch (tables (database c) ''chat.message'') bs)\<rparr>,
       emitted := emitted c @ map (\<lambda>b. chat_message (adapted c ch b) (data ch)) bs\<rparr>"

subsection \<open>The stored rows\<close>





section \<open>Example states\<close>

text \<open>
  An instance of the parameter \<open>Message_adapt\<close>: the row takes id, content and time of
  the message and the platform and guild id given; the channel is \<open>c1\<close>.
\<close>

definition plain_adapt :: "UMessage \<Rightarrow> string \<Rightarrow> string \<Rightarrow> Message" where
  "plain_adapt m p g =
     \<lparr>id = UMessage.messageId m, Message.content = UMessage.content m, Message.platform = p,
      Message.guildId = g, Message.messageId = UMessage.messageId m, userId = [],
      Message.timestamp = UMessage.timestamp m, quoteId = [], username = [], nickname = [],
      Message.channelId = ''c1'', Message.selfId = [], lastUpdated = UMessage.timestamp m,
      deleted = 0\<rparr>"

text \<open>The message with id \<open>i\<close> sent at time \<open>t\<close>, and its row in channel \<open>c1\<close> of guild \<open>g1\<close>.\<close>

definition msg :: "string \<Rightarrow> int \<Rightarrow> UMessage" where
  "msg i t = \<lparr>UMessage.messageId = i, UMessage.content = ''hello'', UMessage.timestamp = t\<rparr>"

definition row :: "string \<Rightarrow> int \<Rightarrow> Message" where
  "row i t = plain_adapt (msg i t) ''discord'' ''g1''"

text \<open>The live event with id \<open>i\<close> at time \<open>t\<close> that bot \<open>b\<close> receives in that channel.\<close>

definition live :: "string \<Rightarrow> string \<Rightarrow> int \<Rightarrow> Session" where
  "live b i t =
     \<lparr>Session.platform = ''discord'', Session.guildId = ''g1'', Session.channelId = ''c1'',
      Session.selfId = b, Session.messageId = i, Session.content = ''hello'',
      Session.timestamp = t, Session.channelName = None\<rparr>"

text \<open>
  A context at time 100 whose service has a \<^verbatim>\<open>config\<close> that keeps messages for 50:
  the given rows in \<^verbatim>\<open>chat.message\<close>, the given bot under the key of assignee \<open>A\<close>,
  and \<open>A\<close> as the assignee of the channel in the channel table. \<open>built\<close> is the same
  context with the service as its constructor builds it: without \<^verbatim>\<open>config\<close>.
\<close>

definition world :: "Message list \<Rightarrow> bot \<Rightarrow> ctx" where
  "world rows b =
     \<lparr>bots = (\<lambda>k. if k = ''discord:A'' then Some b else None),
      database = \<lparr>tables = (\<lambda>t. if t = ''chat.message'' then rows else []), answers = True\<rparr>,
      stopped = False, config = Some \<lparr>maxAge = Some 50\<rparr>, now = 100, emitted = [], warned = [],
      channel_table = (\<lambda>k. if k = (''discord'', ''c1'') then Some ''A'' else None),
      Message_adapt = plain_adapt\<rparr>"

definition built :: "Message list \<Rightarrow> bot \<Rightarrow> ctx" where
  "built rows b = (world rows b)\<lparr>config := None\<rparr>"

text \<open>The actor of that channel before its first event.\<close>

definition actor :: SyncChannel where
  "actor = SyncChannel_new ''discord'' ''g1'' (Some ''c1'')"

text \<open>A service on a store without rows, without actors, whose bot has no history.\<close>

definition service :: MessageService where
  "service = \<lparr>ctx = world [] (\<lambda>chan next. Inr []), channels = (\<lambda>k. None)\<rparr>"

text \<open>The actor once \<open>A\<close> is its assignee, and the same actor after it failed.\<close>

definition claimed :: SyncChannel where
  "claimed = actor\<lparr>data := (data actor)\<lparr>assignee := Some ''A''\<rparr>\<rparr>"

definition failed :: SyncChannel where
  "failed = claimed\<lparr>status := FAILED\<rparr>"

text \<open>
  The actor of \<open>A\<close> with two events in its buffer, the first older than the context
  keeps messages; and with the live event \<open>m7\<close> alone in its buffer.
\<close>

definition pending :: SyncChannel where
  "pending = claimed\<lparr>buffer := [msg ''m0'' 10, msg ''m8'' 98]\<rparr>"

definition triggered :: SyncChannel where
  "triggered = claimed\<lparr>buffer := [msg ''m7'' 97]\<rparr>"

text \<open>
  Sources. The channel has the messages \<open>m1\<close> to \<open>m6\<close>, sent at the times 91 to 96;
  \<open>m7\<close> is the live event, at 97. A page holds three messages older than the cursor.
  \<open>newest_first\<close> orders a page from the newest message to the oldest, \<open>oldest_first\<close> the
  other way; \<open>dry\<close> has lost everything before \<open>m4\<close>; \<open>broken\<close> rejects every call;
  \<open>endless\<close> answers every call with the same message; \<open>silent\<close> has no history;
  \<open>before_m5\<close> holds \<open>m2\<close> to \<open>m4\<close>, from the newest to the oldest.
\<close>

definition time_of :: "string \<Rightarrow> int" where
  "time_of i =
     (if i = ''m1'' then 91 else if i = ''m2'' then 92 else if i = ''m3'' then 93
      else if i = ''m4'' then 94 else if i = ''m5'' then 95 else if i = ''m6'' then 96
      else 97)"

definition newest_first :: bot where
  "newest_first chan next =
     (if next = Some ''m7'' then Inr [msg ''m6'' 96, msg ''m5'' 95, msg ''m4'' 94]
      else if next = Some ''m6'' then Inr [msg ''m5'' 95, msg ''m4'' 94, msg ''m3'' 93]
      else Inr [])"

definition oldest_first :: bot where
  "oldest_first chan next =
     (if next = Some ''m7'' then Inr [msg ''m4'' 94, msg ''m5'' 95, msg ''m6'' 96]
      else if next = Some ''m4'' then Inr [msg ''m1'' 91, msg ''m2'' 92, msg ''m3'' 93]
      else Inr [])"

definition dry :: bot where
  "dry chan next =
     (if next = Some ''m7'' then Inr [msg ''m4'' 94, msg ''m5'' 95, msg ''m6'' 96] else Inr [])"

definition broken :: bot where
  "broken chan next = Inl BotError"

definition endless :: bot where
  "endless chan next = Inr [msg ''m9'' 99]"

definition silent :: bot where
  "silent chan next = Inr []"


text \<open>
  A service whose store holds the rows \<open>m5\<close> and \<open>m6\<close> of the channel in
  \<^verbatim>\<open>chat.message\<close>, the table that the actor reads and writes.
\<close>

definition archive :: MessageService where
  "archive =
     \<lparr>ctx = built [row ''m5'' 95, row ''m6'' 96] silent,
      channels = (\<lambda>k. if k = ''discord:c1'' then Some claimed else None)\<rparr>"

section \<open>Lemmas\<close>

lemmas example_defs =
  plain_adapt_def msg_def row_def live_def world_def actor_def SyncChannel_new_def

lemmas run_defs =
  queue_def accept_def falsy_def ensure_def queue_callback_def init_def private_init_def
  db_select_def of_channel_def Session_message_def adapt_def retained_def adapted_def fresh_def
  db_upsert_def emit_def syncHistory_def bot_key_def cid_def Let_def

lemma falsy_Some: "falsy (Some a) \<longleftrightarrow> a = []"
  by (simp add: falsy_def)

lemma falsy_None: "falsy None"
  by (simp add: falsy_def)

lemma accept_other_sender:
  assumes "assignee (data ch) = Some a" and "a \<noteq> []" and "Session.selfId s \<noteq> a"
  shows "accept ch s = (True, ch)"
  using assms by (auto simp: accept_def falsy_Some)

lemma accept_keeps_assignee:
  assumes "assignee (data ch) = Some a" and "a \<noteq> []"
  shows "assignee (data (snd (accept ch s))) = Some a"
  using assms by (simp add: accept_def falsy_Some Let_def)

lemma accept_adopts:
  assumes "assignee (data ch) = None"
  shows "\<not> fst (accept ch s) \<and> assignee (data (snd (accept ch s))) = Some (Session.selfId s)"
  using assms by (simp add: accept_def falsy_None Let_def)

lemma accept_status: "status (snd (accept ch s)) = status ch"
  by (simp add: accept_def Let_def)

lemma flush_data: "data (snd (snd (flush c ch arrivals))) = data ch"
proof (induction c ch arrivals rule: flush.induct)
  case (1 c ch arrivals)
  show ?case
  proof (cases "buffer ch = []")
    case True
    then show ?thesis by (simp add: flush.simps[of c ch])
  next
    case False
    obtain r c1 where a: "adapt c ch (buffer ch) = (r, c1)" by (cases "adapt c ch (buffer ch)")
    show ?thesis
    proof (cases r)
      case (Inl e)
      with False a show ?thesis by (simp add: flush.simps[of c ch] Let_def)
    next
      case (Inr rows)
      with False a "1.IH"[OF False refl refl a[symmetric] Inr] show ?thesis
        by (simp add: flush.simps[of c ch] Let_def)
    qed
  qed
qed

lemma adapt_answers:
  "answers (database c) \<Longrightarrow> config c \<noteq> None \<Longrightarrow>
   adapt c ch buf =
     (Inr (adapted c ch buf),
      c\<lparr>database := (database c)\<lparr>tables := (tables (database c))
          (''chat.message'' := foldl upsert_row (tables (database c) ''chat.message'')
                                 (filter (fresh c) (adapted c ch buf)))\<rparr>\<rparr>)"
  by (auto simp: adapt_def retained_def db_upsert_def Let_def)


lemma adapt_without_config:
  "config c = None \<Longrightarrow> buf \<noteq> [] \<Longrightarrow> adapt c ch buf = (Inl TypeError, c)"
  by (simp add: adapt_def retained_def adapted_def Let_def)

lemma flush_without_config:
  "config c = None \<Longrightarrow> buffer ch \<noteq> [] \<Longrightarrow>
   flush c ch arrivals
     = (Some TypeError, c, ch\<lparr>buffer := (case arrivals of [] \<Rightarrow> [] | a # _ \<Rightarrow> a)\<rparr>)"
  by (simp add: flush.simps[of c ch] adapt_without_config Let_def)

lemma flushed_Nil: "flushed c ch [] = c"
  by (simp add: flushed_def written_def)

lemma flush_answers:
  "answers (database c) \<Longrightarrow> config c \<noteq> None \<Longrightarrow>
   flush c ch arrivals =
     (None, flushed c ch (takeWhile (\<lambda>b. b \<noteq> []) (buffer ch # arrivals)), ch\<lparr>buffer := []\<rparr>)"
proof (induction arrivals arbitrary: c ch)
  case Nil
  show ?case
  proof (cases "buffer ch = []")
    case True
    then show ?thesis by (simp add: flush.simps[of c ch] flushed_Nil)
  next
    case False
    then show ?thesis using Nil
      by (simp add: flush.simps[of _ _ "[]"] adapt_answers Let_def flushed_def written_def emit_def)
  qed
next
  case (Cons a as)
  show ?case
  proof (cases "buffer ch = []")
    case True
    then show ?thesis by (simp add: flush.simps[of c ch] flushed_Nil)
  next
    case False
    let ?c1 = "emit (snd (adapt c ch (buffer ch))) (chat_message (adapted c ch (buffer ch)) (data ch))"
    let ?ch1 = "ch\<lparr>buffer := a\<rparr>"
    have an: "answers (database ?c1)" and cf: "config ?c1 \<noteq> None"
      using Cons.prems by (simp_all add: adapt_answers emit_def)
    have step: "flush c ch (a # as) = flush ?c1 ?ch1 as"
      using False Cons.prems by (simp add: flush.simps[of c ch] adapt_answers Let_def)
    have same: "adapted ?c1 ?ch1 = adapted c ch" "fresh ?c1 = fresh c"
      using Cons.prems
      by (auto simp: adapt_answers emit_def adapted_def fresh_def fun_eq_iff split: option.splits)
    show ?thesis
      unfolding step Cons.IH[OF an cf]
      using False Cons.prems same
      by (simp add: flushed_def written_def adapt_answers emit_def)
  qed
qed

lemma syncHistory_data:
  assumes "syncHistory c ch rear next = Some (r, c', ch')"
  shows "data ch' = data ch"
proof (cases "bots c (bot_key (data ch))")
  case None
  with assms show ?thesis by (simp add: syncHistory_def)
next
  case (Some b)
  show ?thesis
  proof (cases "syncHistory_while b (ChannelData.channelId (data ch)) rear next (buffer ch)")
    case None
    with Some assms show ?thesis by (simp add: syncHistory_def)
  next
    case (Some res)
    obtain e buf where res: "res = (e, buf)" by (cases res)
    show ?thesis
    proof (cases e)
      case None
      with \<open>bots c (bot_key (data ch)) = Some b\<close> Some res assms
      have "flush c (ch\<lparr>buffer := buf\<rparr>) [] = (r, c', ch')"
        by (simp add: syncHistory_def)
      then have "data ch' = data (snd (snd (flush c (ch\<lparr>buffer := buf\<rparr>) [])))" by simp
      then show ?thesis by (simp add: flush_data)
    next
      case (Some err)
      with \<open>bots c (bot_key (data ch)) = Some b\<close>
        \<open>syncHistory_while b (ChannelData.channelId (data ch)) rear next (buffer ch) = Some res\<close> res assms
      show ?thesis by (auto simp: syncHistory_def)
    qed
  qed
qed

lemma private_init_assignee:
  assumes "private_init c ch session = Some (r, c', ch')"
  shows "assignee (data ch') = assignee (data ch)"
  using assms
  by (auto simp: private_init_def Let_def
      split: sum.splits list.splits option.splits prod.splits dest: syncHistory_data)

lemma init_assignee:
  assumes "init c ch session = Some (r, c', ch')"
  shows "assignee (data ch') = assignee (data ch)"
  using assms
  by (auto simp: init_def split: option.splits prod.splits dest: private_init_assignee)

lemma queue_callback_assignee:
  assumes "queue_callback s c ch = Some (r, c', ch')"
  shows "assignee (data ch') = assignee (data ch)"
proof -
  have fl: "\<And>c1 ch1 e c2 ch2. flush c1 ch1 [] = (e, c2, ch2) \<Longrightarrow> data ch2 = data ch1"
    using flush_data by (metis snd_conv)
  show ?thesis
    using assms
    by (auto simp: queue_callback_def split: option.splits prod.splits if_splits
        dest!: init_assignee fl)
qed

lemma ensure_assignee:
  assumes "ensure c ch callback = Some (c', ch')"
    and "\<And>r c1 ch1. callback c ch = Some (r, c1, ch1) \<Longrightarrow> assignee (data ch1) = assignee (data ch)"
  shows "assignee (data ch') = assignee (data ch)"
  using assms
  by (auto simp: ensure_def split: if_splits option.splits prod.splits)

lemma queue_assignee:
  assumes "queue c ch s = Some (c', ch')" and "assignee (data ch) = Some a" and "a \<noteq> []"
  shows "assignee (data ch') = Some a"
proof (cases "fst (accept ch s)")
  case True
  with assms(1) have "ch' = snd (accept ch s)"
    by (auto simp: queue_def split: prod.splits)
  then show ?thesis using accept_keeps_assignee[OF assms(2,3)] by simp
next
  case False
  let ?ch2 = "(snd (accept ch s))\<lparr>buffer := buffer (snd (accept ch s)) @ [Session_message s]\<rparr>"
  from False assms(1) have e: "ensure c ?ch2 (queue_callback s) = Some (c', ch')"
    by (auto simp: queue_def split: prod.splits)
  have "assignee (data ch') = assignee (data ?ch2)"
    by (rule ensure_assignee[OF e]) (rule queue_callback_assignee)
  then show ?thesis using accept_keeps_assignee[OF assms(2,3), of s] by simp
qed

lemma queue_other_sender:
  assumes "assignee (data ch) = Some a" and "a \<noteq> []" and "Session.selfId s \<noteq> a"
  shows "queue c ch s = Some (c, ch)"
  by (simp add: queue_def accept_other_sender[OF assms])

lemma queue_failed:
  assumes "status ch = FAILED"
  shows "\<exists>ch'. queue c ch s = Some (c, ch') \<and> status ch' = FAILED"
proof (cases "fst (accept ch s)")
  case True
  then show ?thesis using assms accept_status[of ch s]
    by (auto simp: queue_def split: prod.splits)
next
  case False
  then show ?thesis using assms accept_status[of ch s]
    by (auto simp: queue_def ensure_def split: prod.splits)
qed

lemma queue_all_failed:
  "status ch = FAILED \<Longrightarrow> \<exists>ch'. queue_all c ch ss = Some (c, ch') \<and> status ch' = FAILED"
proof (induction ss arbitrary: ch)
  case Nil
  then show ?case by simp
next
  case (Cons s ss)
  from queue_failed[OF Cons.prems] obtain ch1
    where q: "queue c ch s = Some (c, ch1)" and f: "status ch1 = FAILED" by blast
  from Cons.IH[OF f] show ?case using q by simp
qed

lemma queue_all_filter:
  assumes "assignee (data ch) = Some a" and "a \<noteq> []"
  shows "queue_all c ch ss = queue_all c ch (filter (\<lambda>s. Session.selfId s = a) ss)"
  using assms(1)
proof (induction ss arbitrary: c ch)
  case Nil
  show ?case by simp
next
  case (Cons s ss)
  show ?case
  proof (cases "Session.selfId s = a")
    case False
    then show ?thesis
      using Cons queue_other_sender[OF Cons.prems assms(2), of s c] by simp
  next
    case True
    show ?thesis
    proof (cases "queue c ch s")
      case None
      with True show ?thesis by simp
    next
      case (Some p)
      obtain c1 ch1 where p: "p = (c1, ch1)" by (cases p)
      have "assignee (data ch1) = Some a"
        using queue_assignee[OF _ Cons.prems assms(2)] Some p by simp
      from Cons.IH[OF this] show ?thesis using True Some p by simp
    qed
  qed
qed

lemma syncHistory_for_eq:
  "syncHistory_for rear ms buf =
     (rear \<in> UMessage.messageId ` set ms, rev (takeWhile (\<lambda>m. UMessage.messageId m \<noteq> rear) ms) @ buf)"
  by (induction ms arbitrary: buf) auto

lemma syncHistory_for_page:
  "syncHistory_for rear (rev page) buf = (has_rear rear page, after_rear rear page @ buf)"
  by (simp add: syncHistory_for_eq after_rear_def has_rear_def)

lemma after_rear_whole:
  assumes "\<not> has_rear rear page"
  shows "after_rear rear page = page"
proof -
  have "takeWhile (\<lambda>m. UMessage.messageId m \<noteq> rear) (rev page) = rev page"
    by (rule takeWhile_eq_all_conv[THEN iffD2]) (use assms in \<open>auto simp: has_rear_def\<close>)
  then show ?thesis unfolding after_rear_def by (simp only: rev_rev_ident)
qed

lemma after_rear_suffix: "\<exists>skipped. page = skipped @ after_rear rear page"
proof -
  have "rev page = takeWhile (\<lambda>m. UMessage.messageId m \<noteq> rear) (rev page)
                   @ dropWhile (\<lambda>m. UMessage.messageId m \<noteq> rear) (rev page)" by simp
  then have "page = rev (dropWhile (\<lambda>m. UMessage.messageId m \<noteq> rear) (rev page)) @ after_rear rear page"
    unfolding after_rear_def by (metis rev_append rev_rev_ident)
  then show ?thesis by blast
qed

lemma after_rear_ids: "rear \<notin> UMessage.messageId ` set (after_rear rear page)"
  by (auto simp: after_rear_def dest: set_takeWhileD)

lemma syncHistory_while_step:
  "syncHistory_while b chan rear next buf =
     (case b chan next of
        Inl e \<Rightarrow> Some (Some e, buf)
      | Inr page \<Rightarrow>
          if page = [] then Some (Some TypeError, buf)
          else if has_rear rear page then Some (None, after_rear rear page @ buf)
          else syncHistory_while b chan rear (Some (UMessage.messageId (hd page))) (page @ buf))"
  by (subst syncHistory_while.simps)
     (simp add: list.case_eq_if syncHistory_for_page after_rear_whole split: sum.splits)

lemma syncHistory_upto_while:
  "syncHistory_upto n b chan rear cursor buf = Some res \<Longrightarrow>
   syncHistory_while b chan rear cursor buf = Some res"
proof (induction n arbitrary: cursor buf)
  case 0
  then show ?case by simp
next
  case (Suc n)
  show ?case
  proof (cases "b chan cursor")
    case (Inl e)
    with Suc.prems show ?thesis by (simp add: syncHistory_while_step)
  next
    case (Inr page)
    with Suc show ?thesis
      by (simp add: syncHistory_while_step[of b chan rear cursor] split: if_splits)
  qed
qed

lemma syncHistory_while_upto:
  assumes "syncHistory_while b chan rear cursor buf = Some res"
  shows "\<exists>n. syncHistory_upto n b chan rear cursor buf = Some res"
proof (rule syncHistory_while.raw_induct
    [where P = "\<lambda>b chan rear cursor buf res. \<exists>n. syncHistory_upto n b chan rear cursor buf = Some res",
     OF _ assms])
  fix f b chan rear cursor buf res
  assume IH: "\<And>b chan rear cursor buf res.
                 f b chan rear cursor buf = Some res \<Longrightarrow>
                 \<exists>n. syncHistory_upto n b chan rear cursor buf = Some res"
    and body: "(case b chan cursor of
                  Inl e \<Rightarrow> Some (Some e, buf)
                | Inr page \<Rightarrow>
                    (case page of
                       [] \<Rightarrow> Some (Some TypeError, buf)
                     | first # _ \<Rightarrow>
                         (case syncHistory_for rear (rev page) buf of
                            (found, buf1) \<Rightarrow>
                              if found then Some (None, buf1)
                              else f b chan rear (Some (UMessage.messageId first)) buf1))) = Some res"
  show "\<exists>n. syncHistory_upto n b chan rear cursor buf = Some res"
  proof (cases "b chan cursor")
    case (Inl e)
    with body have "syncHistory_upto (Suc 0) b chan rear cursor buf = Some res" by simp
    then show ?thesis by blast
  next
    case (Inr page)
    show ?thesis
    proof (cases "page = [] \<or> has_rear rear page")
      case True
      with Inr body have "syncHistory_upto (Suc 0) b chan rear cursor buf = Some res"
        by (auto simp: list.case_eq_if syncHistory_for_page)
      then show ?thesis by blast
    next
      case False
      with Inr body
      have "f b chan rear (Some (UMessage.messageId (hd page))) (page @ buf) = Some res"
        by (auto simp: list.case_eq_if syncHistory_for_page after_rear_whole)
      from IH[OF this] obtain n
        where "syncHistory_upto n b chan rear (Some (UMessage.messageId (hd page))) (page @ buf) = Some res"
        by blast
      with Inr False have "syncHistory_upto (Suc n) b chan rear cursor buf = Some res" by simp
      then show ?thesis by blast
    qed
  qed
qed

lemma syncHistory_upto_adds:
  "syncHistory_upto n b chan rear cursor buf = Some res \<Longrightarrow>
   \<exists>added. snd res = added @ buf \<and> rear \<notin> UMessage.messageId ` set added"
proof (induction n arbitrary: cursor buf)
  case 0
  then show ?case by simp
next
  case (Suc n)
  show ?case
  proof (cases "b chan cursor")
    case (Inl e)
    with Suc.prems show ?thesis by auto
  next
    case (Inr page)
    show ?thesis
    proof (cases "page = []")
      case True
      with Inr Suc.prems show ?thesis by auto
    next
      case False
      note nonempty = this
      show ?thesis
      proof (cases "has_rear rear page")
        case True
        with Inr nonempty Suc.prems have "snd res = after_rear rear page @ buf" by auto
        then show ?thesis using after_rear_ids by blast
      next
        case False
        with Inr nonempty Suc.prems
        have "syncHistory_upto n b chan rear (Some (UMessage.messageId (hd page))) (page @ buf) = Some res"
          by simp
        from Suc.IH[OF this] obtain added
          where a: "snd res = added @ page @ buf" "rear \<notin> UMessage.messageId ` set added" by blast
        from False have "rear \<notin> UMessage.messageId ` set (added @ page)"
          using a(2) by (auto simp: has_rear_def)
        with a(1) show ?thesis by (metis append.assoc)
      qed
    qed
  qed
qed

lemma ascending_append:
  "ascending (xs @ ys) \<longleftrightarrow>
     ascending xs \<and> ascending ys \<and>
     (\<forall>x \<in> set xs. \<forall>y \<in> set ys. UMessage.timestamp x < UMessage.timestamp y)"
  by (auto simp: ascending_def sorted_wrt_append)

lemma ascending_hd:
  assumes "ascending page" and "m \<in> set page"
  shows "UMessage.timestamp (hd page) \<le> UMessage.timestamp m"
proof (cases page)
  case Nil
  with assms show ?thesis by simp
next
  case (Cons x xs)
  with assms show ?thesis by (auto simp: ascending_def)
qed

lemma ascending_after_rear: "ascending page \<Longrightarrow> ascending (after_rear rear page)"
  using after_rear_suffix[of page rear] by (metis ascending_append)

lemma set_after_rear: "set (after_rear rear page) \<subseteq> set page"
  using after_rear_suffix[of page rear] by (metis set_append sup_ge2)

lemma page_before_buffer:
  assumes "chronological b chan T" and "b chan cursor = Inr page" and "page \<noteq> []"
    and "not_before cursor T buf" and "x \<in> set page" and "y \<in> set buf"
  shows "UMessage.timestamp x < UMessage.timestamp y"
proof (cases cursor)
  case None
  with assms(4,6) show ?thesis by (simp add: not_before_def)
next
  case (Some cur)
  with assms(1,2,5) have "UMessage.timestamp x < T cur" by (auto simp: chronological_def)
  moreover from Some assms(4,6) have "T cur \<le> UMessage.timestamp y" by (auto simp: not_before_def)
  ultimately show ?thesis by simp
qed

lemma syncHistory_upto_ascending:
  assumes "chronological b chan T"
  shows "ascending buf \<Longrightarrow> not_before cursor T buf \<Longrightarrow>
         syncHistory_upto n b chan rear cursor buf = Some (None, buf') \<Longrightarrow> ascending buf'"
proof (induction n arbitrary: cursor buf)
  case 0
  then show ?case by simp
next
  case (Suc n)
  show ?case
  proof (cases "b chan cursor")
    case (Inl e)
    with Suc.prems show ?thesis by simp
  next
    case (Inr page)
    from assms Inr have asc: "ascending page" by (auto simp: chronological_def)
    have before: "\<And>x y. page \<noteq> [] \<Longrightarrow> x \<in> set page \<Longrightarrow> y \<in> set buf
                    \<Longrightarrow> UMessage.timestamp x < UMessage.timestamp y"
      using page_before_buffer[OF assms Inr _ Suc.prems(2)] by blast
    show ?thesis
    proof (cases "page = []")
      case True
      with Inr Suc.prems show ?thesis by simp
    next
      case False
      note nonempty = this
      show ?thesis
      proof (cases "has_rear rear page")
        case True
        with Inr nonempty Suc.prems have "buf' = after_rear rear page @ buf" by simp
        then show ?thesis
          using ascending_after_rear[OF asc] Suc.prems(1) before[OF nonempty] set_after_rear[of rear page]
          by (auto simp: ascending_append)
      next
        case False
        with Inr nonempty Suc.prems
        have run: "syncHistory_upto n b chan rear (Some (UMessage.messageId (hd page))) (page @ buf) = Some (None, buf')"
          by simp
        have a: "ascending (page @ buf)"
          using asc Suc.prems(1) before[OF nonempty] by (auto simp: ascending_append)
        from nonempty have "hd page \<in> set page" by simp
        with assms Inr have T: "T (UMessage.messageId (hd page)) = UMessage.timestamp (hd page)"
          by (auto simp: chronological_def)
        have "not_before (Some (UMessage.messageId (hd page))) T (page @ buf)"
          unfolding not_before_def option.case T
        proof
          fix m assume "m \<in> set (page @ buf)"
          then consider "m \<in> set page" | "m \<in> set buf" by auto
          then show "UMessage.timestamp (hd page) \<le> UMessage.timestamp m"
          proof cases
            case 1
            then show ?thesis by (rule ascending_hd[OF asc])
          next
            case 2
            with before[OF nonempty \<open>hd page \<in> set page\<close>] show ?thesis by force
          qed
        qed
        from Suc.IH[OF a this run] show ?thesis .
      qed
    qed
  qed
qed

lemma syncHistory_upto_endless:
  assumes "\<And>cursor. \<exists>page. b chan cursor = Inr page \<and> page \<noteq> [] \<and> \<not> has_rear rear page"
  shows "syncHistory_upto n b chan rear cursor buf = None"
proof (induction n arbitrary: cursor buf)
  case 0
  show ?case by simp
next
  case (Suc n)
  from assms[of cursor] obtain page
    where "b chan cursor = Inr page" "page \<noteq> []" "\<not> has_rear rear page" by blast
  with Suc show ?case by simp
qed

lemma syncHistory_while_endless:
  assumes "\<And>cursor. \<exists>page. b chan cursor = Inr page \<and> page \<noteq> [] \<and> \<not> has_rear rear page"
  shows "syncHistory_while b chan rear cursor buf = None"
proof (cases "syncHistory_while b chan rear cursor buf")
  case None
  then show ?thesis .
next
  case (Some res)
  from syncHistory_while_upto[OF Some] syncHistory_upto_endless[of b chan rear, OF assms]
  show ?thesis by simp
qed

lemma queue_all_assignee:
  assumes "a \<noteq> []"
  shows "assignee (data ch) = Some a \<Longrightarrow> queue_all c ch ss = Some (c', ch')
         \<Longrightarrow> assignee (data ch') = Some a"
proof (induction ss arbitrary: c ch)
  case Nil
  then show ?case by simp
next
  case (Cons s ss)
  from Cons.prems(2) obtain c1 ch1 where q: "queue c ch s = Some (c1, ch1)"
    and r: "queue_all c1 ch1 ss = Some (c', ch')"
    by (auto split: option.splits)
  from queue_assignee[OF q Cons.prems(1) assms] Cons.IH r show ?case by blast
qed

lemma row_time: "Message.timestamp (row i t) = t" "Message.id (row i t) = i"
  by (simp_all add: row_def plain_adapt_def msg_def)

section \<open>The claims\<close>

subsection \<open>C1: the order of the backfill\<close>

lemma ascending_rows_adapted:
  assumes "keeps_time c" and "ascending ms"
  shows "ascending_rows (filter (fresh c) (adapted c ch ms))"
proof -
  have "map Message.timestamp (adapted c ch ms) = map UMessage.timestamp ms"
    using assms(1) by (simp add: adapted_def keeps_time_def)
  with assms(2) have "sorted_wrt (<) (map Message.timestamp (adapted c ch ms))"
    by (simp add: ascending_def)
  then have "sorted_wrt (\<lambda>x y. Message.timestamp x < Message.timestamp y) (adapted c ch ms)"
    by (simp add: sorted_wrt_map)
  then have "sorted_wrt (\<lambda>x y. Message.timestamp x < Message.timestamp y)
               (filter (fresh c) (adapted c ch ms))"
    by (rule sorted_wrt_filter)
  then show ?thesis by (simp add: ascending_rows_def sorted_wrt_map)
qed

text \<open>
  C1 as stated fails on a source that answers newest first, as the interface of the
  specification has it. The store ends with \<open>m3\<close>, the live event is \<open>m7\<close>; the page
  before \<open>m7\<close> is \<open>m6, m5, m4\<close> and the page before \<open>m6\<close> is \<open>m5, m4, m3\<close>. The loop
  walks the reversed page and puts each message in front of the buffer, so the page
  arrives in the buffer in the order the source gave it: the buffer is
  \<open>m6, m5, m4, m7\<close>, which is not in increasing time.
\<close>

theorem newest_first_pages_are_not_reversed:
  "syncHistory_while newest_first (Some ''c1'') ''m3'' (Some ''m7'') [msg ''m7'' 97]
     = Some (None, [msg ''m6'' 96, msg ''m5'' 95, msg ''m4'' 94, msg ''m7'' 97]) \<and>
   \<not> ascending [msg ''m6'' 96, msg ''m5'' 95, msg ''m4'' 94, msg ''m7'' 97]"
proof -
  have "syncHistory_upto (Suc (Suc 0)) newest_first (Some ''c1'') ''m3'' (Some ''m7'') [msg ''m7'' 97]
     = Some (None, [msg ''m6'' 96, msg ''m5'' 95, msg ''m4'' 94, msg ''m7'' 97])"
    by (simp add: newest_first_def has_rear_def after_rear_def msg_def)
  then have "syncHistory_while newest_first (Some ''c1'') ''m3'' (Some ''m7'') [msg ''m7'' 97]
     = Some (None, [msg ''m6'' 96, msg ''m5'' 95, msg ''m4'' 94, msg ''m7'' 97])"
    by (rule syncHistory_upto_while)
  moreover have "\<not> ascending [msg ''m6'' 96, msg ''m5'' 95, msg ''m4'' 94, msg ''m7'' 97]"
    by (simp add: ascending_def msg_def)
  ultimately show ?thesis by blast
qed

text \<open>
  C1, amended: the backfill puts each page in front of the buffer in the order the
  source returned it: a page without \<^verbatim>\<open>rear\<close> whole, after which the loop goes on
  from the first message of the page; of a page with \<^verbatim>\<open>rear\<close> the messages behind
  the last one with that id, which ends the loop. When the source answers oldest first (every page in strictly
  increasing time and older than its cursor), the buffer at the start is in strictly
  increasing time and not older than the first cursor, the store answers and the
  conversion keeps the time of a message, then a backfill that returns has put a
  history without \<^verbatim>\<open>rear\<close> in front of the buffer, the whole is in strictly increasing
  time, and so are the rows that the flush at its end upserts; the buffer is empty
  afterwards.
\<close>

theorem backfill_keeps_time_order:
  assumes "bots c (bot_key (data ch)) = Some b"
    and "chronological b (ChannelData.channelId (data ch)) T"
    and "ascending (buffer ch)"
    and "not_before cursor T (buffer ch)"
    and "answers (database c)"
    and "keeps_time c"
    and "syncHistory c ch rear cursor = Some (None, c', ch')"
  shows "(\<forall>cur page buf.
        b (ChannelData.channelId (data ch)) cur = Inr page \<and> page \<noteq> [] \<longrightarrow>
        syncHistory_while b (ChannelData.channelId (data ch)) rear cur buf =
          (if has_rear rear page then Some (None, after_rear rear page @ buf)
           else syncHistory_while b (ChannelData.channelId (data ch)) rear
                  (Some (UMessage.messageId (hd page))) (page @ buf))) \<and>
     (\<exists>history.
        syncHistory_while b (ChannelData.channelId (data ch)) rear cursor (buffer ch)
          = Some (None, history @ buffer ch) \<and>
        rear \<notin> UMessage.messageId ` set history \<and>
        ascending (history @ buffer ch) \<and>
        ascending_rows (filter (fresh c) (adapted c ch (history @ buffer ch))) \<and>
        tables (database c') ''chat.message'' =
          foldl upsert_row (tables (database c) ''chat.message'')
            (filter (fresh c) (adapted c ch (history @ buffer ch))) \<and>
        buffer ch' = [])"
proof -
  let ?chan = "ChannelData.channelId (data ch)"
  from assms(1,7) obtain buf where
    loop: "syncHistory_while b ?chan rear cursor (buffer ch) = Some (None, buf)"
    and fl: "flush c (ch\<lparr>buffer := buf\<rparr>) [] = (None, c', ch')"
    by (auto simp: syncHistory_def split: option.splits prod.splits)
  from syncHistory_while_upto[OF loop] obtain n where
    upto: "syncHistory_upto n b ?chan rear cursor (buffer ch) = Some (None, buf)" by blast
  from syncHistory_upto_adds[OF upto] obtain history where
    h: "buf = history @ buffer ch" "rear \<notin> UMessage.messageId ` set history" by auto
  have asc: "ascending buf"
    by (rule syncHistory_upto_ascending[OF assms(2,3,4) upto])
  have rows: "ascending_rows (filter (fresh c) (adapted c ch buf))"
    by (rule ascending_rows_adapted[OF assms(6) asc])
  have ad: "adapted c (ch\<lparr>buffer := buf\<rparr>) = adapted c ch"
    by (simp add: adapted_def fun_eq_iff)
  have tab: "tables (database c') ''chat.message'' =
       foldl upsert_row (tables (database c) ''chat.message'') (filter (fresh c) (adapted c ch buf))"
    and ch': "buffer ch' = []"
  proof -
    show "tables (database c') ''chat.message'' =
       foldl upsert_row (tables (database c) ''chat.message'') (filter (fresh c) (adapted c ch buf))"
    proof (cases "buf = []")
      case True
      with fl show ?thesis by (simp add: flush.simps[of c] adapted_def)
    next
      case False
      with fl have cf: "config c \<noteq> None"
        using flush_without_config[of c "ch\<lparr>buffer := buf\<rparr>" "[]"] by auto
      from fl flush_answers[OF assms(5) cf, of "ch\<lparr>buffer := buf\<rparr>" "[]"] False
      have "c' = flushed c (ch\<lparr>buffer := buf\<rparr>) [buf]" by simp
      then show ?thesis by (simp add: flushed_def written_def ad)
    qed
    show "buffer ch' = []"
    proof (cases "buf = []")
      case True
      with fl show ?thesis by (auto simp: flush.simps[of c])
    next
      case False
      with fl have cf: "config c \<noteq> None"
        using flush_without_config[of c "ch\<lparr>buffer := buf\<rparr>" "[]"] by auto
      from fl flush_answers[OF assms(5) cf, of "ch\<lparr>buffer := buf\<rparr>" "[]"]
      show ?thesis by auto
    qed
  qed
  have step: "\<forall>cur page buf.
        b ?chan cur = Inr page \<and> page \<noteq> [] \<longrightarrow>
        syncHistory_while b ?chan rear cur buf =
          (if has_rear rear page then Some (None, after_rear rear page @ buf)
           else syncHistory_while b ?chan rear (Some (UMessage.messageId (hd page))) (page @ buf))"
    by (simp add: syncHistory_while_step[of b ?chan rear])
  from loop h asc rows tab ch' have "\<exists>history.
        syncHistory_while b ?chan rear cursor (buffer ch) = Some (None, history @ buffer ch) \<and>
        rear \<notin> UMessage.messageId ` set history \<and>
        ascending (history @ buffer ch) \<and>
        ascending_rows (filter (fresh c) (adapted c ch (history @ buffer ch))) \<and>
        tables (database c') ''chat.message'' =
          foldl upsert_row (tables (database c) ''chat.message'')
            (filter (fresh c) (adapted c ch (history @ buffer ch))) \<and>
        buffer ch' = []"
    by auto
  with step show ?thesis by blast
qed

lemma oldest_first_chronological: "chronological oldest_first chan time_of"
  by (auto simp: chronological_def oldest_first_def ascending_def time_of_def msg_def split: if_splits)

text \<open>
  C1, an instance: the store holds \<open>m1\<close> to \<open>m3\<close>, the live event is \<open>m7\<close>, the source
  answers oldest first with \<open>m4, m5, m6\<close> and then \<open>m1, m2, m3\<close>. The buffer becomes
  \<open>m4, m5, m6, m7\<close> and the table \<open>m1\<close> to \<open>m7\<close>.
\<close>

theorem backfill_keeps_time_order_witness:
  "bots (world [row ''m1'' 91, row ''m2'' 92, row ''m3'' 93] oldest_first) (bot_key (data triggered))
      = Some oldest_first \<and>
   chronological oldest_first (ChannelData.channelId (data triggered)) time_of \<and>
   ascending (buffer triggered) \<and>
   not_before (Some ''m7'') time_of (buffer triggered) \<and>
   answers (database (world [row ''m1'' 91, row ''m2'' 92, row ''m3'' 93] oldest_first)) \<and>
   keeps_time (world [row ''m1'' 91, row ''m2'' 92, row ''m3'' 93] oldest_first) \<and>
   syncHistory_while oldest_first (Some ''c1'') ''m3'' (Some ''m7'') [msg ''m7'' 97]
     = Some (None, [msg ''m4'' 94, msg ''m5'' 95, msg ''m6'' 96, msg ''m7'' 97]) \<and>
   ascending [msg ''m4'' 94, msg ''m5'' 95, msg ''m6'' 96, msg ''m7'' 97] \<and>
   map_option (\<lambda>r. tables (database (fst (snd r))) ''chat.message'')
     (syncHistory (world [row ''m1'' 91, row ''m2'' 92, row ''m3'' 93] oldest_first) triggered ''m3'' (Some ''m7''))
     = Some [row ''m1'' 91, row ''m2'' 92, row ''m3'' 93, row ''m4'' 94, row ''m5'' 95, row ''m6'' 96, row ''m7'' 97]"
proof -
  let ?w = "world [row ''m1'' 91, row ''m2'' 92, row ''m3'' 93] oldest_first"
  have h1: "bots ?w (bot_key (data triggered)) = Some oldest_first"
    by (simp add: world_def bot_key_def triggered_def claimed_def actor_def SyncChannel_new_def)
  have h2: "chronological oldest_first (ChannelData.channelId (data triggered)) time_of"
    by (rule oldest_first_chronological)
  have h3: "ascending (buffer triggered)"
    by (simp add: triggered_def ascending_def)
  have h4: "not_before (Some ''m7'') time_of (buffer triggered)"
    by (simp add: triggered_def not_before_def time_of_def msg_def)
  have h5: "answers (database ?w)" by (simp add: world_def)
  have h6: "keeps_time ?w" by (simp add: keeps_time_def world_def plain_adapt_def)
  have cf: "config ?w \<noteq> None" by (simp add: world_def)
  have t: "buffer triggered = [msg ''m7'' 97]" "ChannelData.channelId (data triggered) = Some ''c1''"
    by (simp_all add: triggered_def claimed_def actor_def SyncChannel_new_def)
  have "syncHistory_upto (Suc (Suc 0)) oldest_first (Some ''c1'') ''m3'' (Some ''m7'') [msg ''m7'' 97]
     = Some (None, [msg ''m4'' 94, msg ''m5'' 95, msg ''m6'' 96, msg ''m7'' 97])"
    by (simp add: oldest_first_def has_rear_def after_rear_def msg_def)
  then have loop: "syncHistory_while oldest_first (Some ''c1'') ''m3'' (Some ''m7'') [msg ''m7'' 97]
     = Some (None, [msg ''m4'' 94, msg ''m5'' 95, msg ''m6'' 96, msg ''m7'' 97])"
    by (rule syncHistory_upto_while)
  have ad: "adapted ?w (triggered\<lparr>buffer := [msg ''m4'' 94, msg ''m5'' 95, msg ''m6'' 96, msg ''m7'' 97]\<rparr>)
              [msg ''m4'' 94, msg ''m5'' 95, msg ''m6'' 96, msg ''m7'' 97]
            = [row ''m4'' 94, row ''m5'' 95, row ''m6'' 96, row ''m7'' 97]"
    by (simp add: adapted_def world_def triggered_def claimed_def actor_def SyncChannel_new_def row_def)
  have run: "syncHistory ?w triggered ''m3'' (Some ''m7'')
     = Some (None, flushed ?w (triggered\<lparr>buffer := [msg ''m4'' 94, msg ''m5'' 95, msg ''m6'' 96, msg ''m7'' 97]\<rparr>)
                    [[msg ''m4'' 94, msg ''m5'' 95, msg ''m6'' 96, msg ''m7'' 97]],
             triggered\<lparr>buffer := []\<rparr>)"
    using loop by (simp add: syncHistory_def h1 t flush_answers[OF h5 cf])
  from backfill_keeps_time_order[OF h1 h2 h3 h4 h5 h6 run] obtain history where
    r: "syncHistory_while oldest_first (ChannelData.channelId (data triggered)) ''m3'' (Some ''m7'') (buffer triggered)
          = Some (None, history @ buffer triggered)"
       "ascending (history @ buffer triggered)"
    by blast
  from r(1) loop have "history @ buffer triggered = [msg ''m4'' 94, msg ''m5'' 95, msg ''m6'' 96, msg ''m7'' 97]"
    by (simp add: t)
  with r(2) have asc: "ascending [msg ''m4'' 94, msg ''m5'' 95, msg ''m6'' 96, msg ''m7'' 97]" by simp
  have w: "tables (database ?w) ''chat.message'' = [row ''m1'' 91, row ''m2'' 92, row ''m3'' 93]"
    "now ?w = 100" "config ?w = Some \<lparr>maxAge = Some 50\<rparr>"
    by (simp_all add: world_def)
  have tab: "tables (database (flushed ?w (triggered\<lparr>buffer := [msg ''m4'' 94, msg ''m5'' 95, msg ''m6'' 96, msg ''m7'' 97]\<rparr>)
                    [[msg ''m4'' 94, msg ''m5'' 95, msg ''m6'' 96, msg ''m7'' 97]])) ''chat.message''
     = [row ''m1'' 91, row ''m2'' 92, row ''m3'' 93, row ''m4'' 94, row ''m5'' 95, row ''m6'' 96, row ''m7'' 97]"
    by (simp add: flushed_def written_def ad fresh_def row_time w)
  show ?thesis using h1 h2 h3 h4 h5 h6 loop asc by (simp add: run tab)
qed

subsection \<open>C2: the actor that the registry creates\<close>

text \<open>
  C2 says that the actor which \<^verbatim>\<open>#onMessage\<close> looks up or creates for an event has the
  platform, the guild id and the channel id of the event. Here an event of guild \<open>g1\<close>
  and channel \<open>c1\<close> reaches a service without actors: the call succeeds and leaves an
  actor under the key of the event whose guild id is the channel id of the event and
  whose channel id is undefined, since \<^verbatim>\<open>new SyncChannel\<close> is given three arguments
  for the four parameters of the constructor.
\<close>

theorem onMessage_actor_identity:
  "\<exists>sv ch. onMessage service (live ''A'' ''m5'' 95) = Some (None, sv) \<and>
      channels sv (cid (live ''A'' ''m5'' 95)) = Some ch \<and>
      Session.guildId (live ''A'' ''m5'' 95) = ''g1'' \<and>
      Session.channelId (live ''A'' ''m5'' 95) = ''c1'' \<and>
      ChannelData.platform (data ch) = ''discord'' \<and>
      ChannelData.guildId (data ch) = ''c1'' \<and>
      ChannelData.channelId (data ch) = None"
  by (simp add: service_def example_defs onMessage_def run_defs flush.simps)

subsection \<open>C3: one assignee\<close>

text \<open>
  C3 as stated fails when the first sender has the empty id: \<^verbatim>\<open>!this.data.assignee\<close>
  still holds after that id was adopted, so the next sender is adopted in its place
  and is not rejected.
\<close>

theorem second_sender_after_empty_id:
  "assignee (data (snd (accept actor (live [] ''m1'' 91)))) = Some [] \<and>
   fst (accept (snd (accept actor (live [] ''m1'' 91))) (live ''B'' ''m2'' 92)) = False \<and>
   assignee (data (snd (accept (snd (accept actor (live [] ''m1'' 91))) (live ''B'' ''m2'' 92))))
     = Some ''B''"
  by (simp add: accept_def falsy_def example_defs)

text \<open>
  C3, amended: \<^verbatim>\<open>accept\<close> adopts the sender of the first event as assignee. Once the
  assignee is a non-empty id it stays: \<^verbatim>\<open>accept\<close> keeps it; an event of another sender
  is rejected and \<^verbatim>\<open>queue\<close> leaves the context, with the store, and the actor, with
  the buffer, as they were; a run of \<^verbatim>\<open>queue\<close> calls does what the run of the
  assignee's events alone does, and ends with the same assignee.
\<close>

theorem assignee_is_kept:
  "(assignee (data ch) = None \<longrightarrow>
      \<not> fst (accept ch s) \<and> assignee (data (snd (accept ch s))) = Some (Session.selfId s)) \<and>
   (assignee (data ch) = Some a \<and> a \<noteq> [] \<longrightarrow>
      assignee (data (snd (accept ch s))) = Some a \<and>
      (Session.selfId s \<noteq> a \<longrightarrow> fst (accept ch s) \<and> queue c ch s = Some (c, ch)) \<and>
      queue_all c ch ss = queue_all c ch (filter (\<lambda>s. Session.selfId s = a) ss) \<and>
      (\<forall>c' ch'. queue_all c ch ss = Some (c', ch') \<longrightarrow> assignee (data ch') = Some a))"
  using accept_adopts[of ch s] accept_keeps_assignee[of ch a s] accept_other_sender[of ch a s]
    queue_other_sender[of ch a s c] queue_all_filter[of ch a c ss] queue_all_assignee[of a ch c ss]
  by auto

text \<open>
  C3, an instance: the new actor adopts \<open>A\<close>; the actor of \<open>A\<close> rejects the events of
  \<open>B\<close>, and two of them leave the context and the actor as they were.
\<close>

theorem assignee_is_kept_witness:
  "assignee (data actor) = None \<and>
   \<not> fst (accept actor (live ''A'' ''m7'' 97)) \<and>
   assignee (data (snd (accept actor (live ''A'' ''m7'' 97)))) = Some ''A'' \<and>
   assignee (data claimed) = Some ''A'' \<and> ''A'' \<noteq> [] \<and>
   Session.selfId (live ''B'' ''m8'' 98) \<noteq> ''A'' \<and>
   fst (accept claimed (live ''B'' ''m8'' 98)) \<and>
   queue (world [] silent) claimed (live ''B'' ''m8'' 98) = Some (world [] silent, claimed) \<and>
   queue_all (world [] silent) claimed [live ''B'' ''m8'' 98, live ''B'' ''m9'' 99]
     = Some (world [] silent, claimed)"
proof -
  have h1: "assignee (data actor) = None" by (simp add: example_defs)
  have h2: "assignee (data claimed) = Some ''A'' \<and> ''A'' \<noteq> []" by (simp add: claimed_def)
  have h3: "Session.selfId (live ''B'' ''m8'' 98) \<noteq> ''A''" by (simp add: live_def)
  have f: "filter (\<lambda>s. Session.selfId s = ''A'') [live ''B'' ''m8'' 98, live ''B'' ''m9'' 99] = []"
    by (simp add: live_def)
  from assignee_is_kept[of actor "live ''A'' ''m7'' 97" "''A''"] h1
  have a: "\<not> fst (accept actor (live ''A'' ''m7'' 97)) \<and>
           assignee (data (snd (accept actor (live ''A'' ''m7'' 97))))
             = Some (Session.selfId (live ''A'' ''m7'' 97))"
    by blast
  from assignee_is_kept[of claimed "live ''B'' ''m8'' 98" "''A''" "world [] silent"
      "[live ''B'' ''m8'' 98, live ''B'' ''m9'' 99]"] h2 h3
  have b: "fst (accept claimed (live ''B'' ''m8'' 98)) \<and>
           queue (world [] silent) claimed (live ''B'' ''m8'' 98) = Some (world [] silent, claimed) \<and>
           queue_all (world [] silent) claimed [live ''B'' ''m8'' 98, live ''B'' ''m9'' 99]
             = queue_all (world [] silent) claimed
                 (filter (\<lambda>s. Session.selfId s = ''A'') [live ''B'' ''m8'' 98, live ''B'' ''m9'' 99])"
    by blast
  have sid: "Session.selfId (live ''A'' ''m7'' 97) = ''A''" by (simp add: live_def)
  note a' = a[unfolded sid]
  note b' = b[unfolded f queue_all.simps(1)]
  from a' b' h1 h2 h3 show ?thesis by blast
qed

subsection \<open>C4: a failed actor\<close>

text \<open>
  C4: on an actor whose status is \<^verbatim>\<open>FAILED\<close>, any number of \<^verbatim>\<open>queue\<close> calls returns,
  leaves the whole context as it was (the store is not written, nothing is emitted),
  and leaves the status \<^verbatim>\<open>FAILED\<close>.
\<close>

theorem failed_is_absorbing:
  assumes "status ch = FAILED"
  shows "\<exists>ch'. queue_all c ch ss = Some (c, ch') \<and> status ch' = FAILED"
  by (rule queue_all_failed[OF assms])

text \<open>C4, an instance: two events of the assignee on the failed actor.\<close>

theorem failed_is_absorbing_witness:
  "status failed = FAILED \<and>
   (\<exists>ch'. queue_all (world [] silent) failed [live ''A'' ''m8'' 98, live ''A'' ''m9'' 99]
             = Some (world [] silent, ch') \<and> status ch' = FAILED)"
proof -
  have h: "status failed = FAILED" by (simp add: failed_def)
  from failed_is_absorbing[OF h] show ?thesis using h by blast
qed

subsection \<open>C5: the end of the backfill loop\<close>

lemma dry_run:
  "syncHistory_while dry (Some ''c1'') ''m3'' (Some ''m7'') [msg ''m7'' 97]
     = Some (Some TypeError, [msg ''m4'' 94, msg ''m5'' 95, msg ''m6'' 96, msg ''m7'' 97])"
proof -
  have "syncHistory_upto (Suc (Suc 0)) dry (Some ''c1'') ''m3'' (Some ''m7'') [msg ''m7'' 97]
     = Some (Some TypeError, [msg ''m4'' 94, msg ''m5'' 95, msg ''m6'' 96, msg ''m7'' 97])"
    by (simp add: dry_def has_rear_def msg_def)
  then show ?thesis by (rule syncHistory_upto_while)
qed

lemma endless_run: "syncHistory_while endless (Some ''c1'') ''m3'' (Some ''m7'') [msg ''m7'' 97] = None"
  by (rule syncHistory_while_endless) (simp add: endless_def has_rear_def msg_def)

text \<open>
  C5 says that the loop of \<^verbatim>\<open>syncHistory\<close> ends for every source, and that an empty
  page is the end of the source: stop. Here the store ends with \<open>m3\<close>, the live event
  is \<open>m7\<close>, and the source \<open>dry\<close> has \<open>m4\<close> to \<open>m6\<close> and nothing older. The loop takes
  the page \<open>m4\<close> to \<open>m6\<close>, asks for the page before \<open>m4\<close>, gets the empty page and
  throws a \<^verbatim>\<open>TypeError\<close> at \<^verbatim>\<open>data[0].messageId\<close>: the buffer is not flushed, the
  actor fails, the store still holds \<open>m3\<close> alone. And with the source \<open>endless\<close>, whose
  pages are never empty and never hold \<^verbatim>\<open>rear\<close>, the loop does not return.
\<close>

theorem empty_page_fails_the_backfill:
  "syncHistory_while dry (Some ''c1'') ''m3'' (Some ''m7'') [msg ''m7'' 97]
     = Some (Some TypeError, [msg ''m4'' 94, msg ''m5'' 95, msg ''m6'' 96, msg ''m7'' 97]) \<and>
   (\<exists>c' ch'. queue (world [row ''m3'' 93] dry) actor (live ''A'' ''m7'' 97) = Some (c', ch') \<and>
      status ch' = FAILED \<and> warned c' = [TypeError] \<and> emitted c' = [] \<and>
      tables (database c') ''chat.message'' = [row ''m3'' 93]) \<and>
   syncHistory_while endless (Some ''c1'') ''m3'' (Some ''m7'') [msg ''m7'' 97] = None"
proof -
  have "\<exists>c' ch'. queue (world [row ''m3'' 93] dry) actor (live ''A'' ''m7'' 97) = Some (c', ch') \<and>
      status ch' = FAILED \<and> warned c' = [TypeError] \<and> emitted c' = [] \<and>
      tables (database c') ''chat.message'' = [row ''m3'' 93]"
    using dry_run
    by (simp add: queue_def ensure_def queue_callback_def init_def private_init_def syncHistory_def
        bot_key_def accept_def falsy_def Session_message_def Let_def db_select_def of_channel_def
        world_def actor_def SyncChannel_new_def live_def row_def plain_adapt_def msg_def)
  with dry_run endless_run show ?thesis by blast
qed

subsection \<open>C6: a failure and its notification\<close>

text \<open>
  C6 says that an error in the initialization or in a flush makes the actor
  \<^verbatim>\<open>FAILED\<close> and emits a notification with the channel key and the error. Here the
  bot rejects the first page of the backfill: the actor fails and the error is handed
  to \<^verbatim>\<open>logger.warn\<close>, but nothing at all is emitted, so no \<^verbatim>\<open>messages/syncFailed\<close>.
\<close>

theorem failure_is_logged_not_announced:
  "\<exists>c' ch'. queue (world [row ''m3'' 93] broken) actor (live ''A'' ''m7'' 97) = Some (c', ch') \<and>
      status ch' = FAILED \<and> warned c' = [BotError] \<and> emitted c' = []"
proof -
  have "syncHistory_upto (Suc 0) broken (Some ''c1'') ''m3'' (Some ''m7'') [msg ''m7'' 97]
     = Some (Some BotError, [msg ''m7'' 97])"
    by (simp add: broken_def)
  then have "syncHistory_while broken (Some ''c1'') ''m3'' (Some ''m7'') [msg ''m7'' 97]
     = Some (Some BotError, [msg ''m7'' 97])"
    by (rule syncHistory_upto_while)
  then show ?thesis
    by (simp add: queue_def ensure_def queue_callback_def init_def private_init_def syncHistory_def
        bot_key_def accept_def falsy_def Session_message_def Let_def db_select_def of_channel_def
        world_def actor_def SyncChannel_new_def live_def row_def plain_adapt_def msg_def)
qed

subsection \<open>C7: the loop of flush\<close>

text \<open>
  C7 says that every iteration of \<^verbatim>\<open>flush\<close> takes the buffer, upserts the rows
  whose age is within \<^verbatim>\<open>maxAge\<close> and then emits \<^verbatim>\<open>chat/message\<close>. In the service as
  its constructor builds it \<^verbatim>\<open>this.ctx.messages.config\<close> is undefined. Here the buffer
  holds the event \<open>m7\<close>: the iteration takes it out of the buffer, the filter throws a
  \<^verbatim>\<open>TypeError\<close> at \<^verbatim>\<open>config.maxAge\<close>, and \<^verbatim>\<open>flush\<close> ends with that error and the
  context as it was. The first event of the channel, on an empty store, leaves the
  actor \<^verbatim>\<open>FAILED\<close> with an empty buffer: \<^verbatim>\<open>chat/channel\<close> is the only event emitted
  and the table has no row.
\<close>

theorem flush_throws_without_config:
  "flush (built [] silent) triggered []
     = (Some TypeError, built [] silent, triggered\<lparr>buffer := []\<rparr>) \<and>
   (\<exists>c' ch'. queue (built [] silent) actor (live ''A'' ''m7'' 97) = Some (c', ch') \<and>
      status ch' = FAILED \<and> warned c' = [TypeError] \<and> buffer ch' = [] \<and>
      emitted c' = [chat_channel (data claimed)] \<and>
      tables (database c') ''chat.message'' = [])"
proof -
  have cf: "config (built [] silent) = None" by (simp add: built_def)
  have ne: "buffer triggered \<noteq> []" by (simp add: triggered_def)
  have a: "flush (built [] silent) triggered []
     = (Some TypeError, built [] silent, triggered\<lparr>buffer := []\<rparr>)"
    using flush_without_config[OF cf ne, of "[]"] by simp
  have b: "\<exists>c' ch'. queue (built [] silent) actor (live ''A'' ''m7'' 97) = Some (c', ch') \<and>
      status ch' = FAILED \<and> warned c' = [TypeError] \<and> buffer ch' = [] \<and>
      emitted c' = [chat_channel (data claimed)] \<and>
      tables (database c') ''chat.message'' = []"
    by (simp add: built_def claimed_def example_defs run_defs flush.simps)
  from a b show ?thesis by blast
qed

subsection \<open>C8: the recent messages\<close>











subsection \<open>C9: edits and deletions\<close>

lemma listeners_frame:
  "tables (database (ctx (snd (on_message_deleted sv s)))) ''chat.message''
     = tables (database (ctx sv)) ''chat.message''"
  "tables (database (ctx (snd (on_message_updated sv s)))) ''chat.message''
     = tables (database (ctx sv)) ''chat.message''"
  by (simp_all add: on_message_deleted_def on_message_updated_def db_set_def)

text \<open>
  C9 says that an edit or a deletion updates the stored record of the message. The
  listeners of \<^verbatim>\<open>message-deleted\<close> and \<^verbatim>\<open>message-updated\<close> set the table
  \<^verbatim>\<open>message\<close>; the actor writes and reads the table \<^verbatim>\<open>chat.message\<close>. So for every
  service and every event both listeners leave \<^verbatim>\<open>chat.message\<close> as it was. Here that
  table holds the row of \<open>m5\<close>: after the deletion of \<open>m5\<close> the row still has
  \<^verbatim>\<open>deleted\<close> 0, after the edit it still has its old content, and both listeners
  have returned without error.
\<close>

theorem edits_and_deletes_miss_the_stored_record:
  "tables (database (ctx (snd (on_message_deleted sv s)))) ''chat.message''
     = tables (database (ctx sv)) ''chat.message'' \<and>
   tables (database (ctx (snd (on_message_updated sv s)))) ''chat.message''
     = tables (database (ctx sv)) ''chat.message'' \<and>
   tables (database (ctx archive)) ''chat.message'' = [row ''m5'' 95, row ''m6'' 96] \<and>
   same_message (live ''A'' ''m5'' 99) (row ''m5'' 95) \<and>
   fst (on_message_deleted archive (live ''A'' ''m5'' 99)) = None \<and>
   tables (database (ctx (snd (on_message_deleted archive (live ''A'' ''m5'' 99))))) ''chat.message''
     = [row ''m5'' 95, row ''m6'' 96] \<and>
   Message.deleted (row ''m5'' 95) = 0 \<and>
   fst (on_message_updated archive ((live ''A'' ''m5'' 99)\<lparr>Session.content := ''bye''\<rparr>)) = None \<and>
   tables (database (ctx (snd (on_message_updated archive
       ((live ''A'' ''m5'' 99)\<lparr>Session.content := ''bye''\<rparr>))))) ''chat.message''
     = [row ''m5'' 95, row ''m6'' 96] \<and>
   Message.content (row ''m5'' 95) = ''hello''"
proof -
  have t: "tables (database (ctx archive)) ''chat.message'' = [row ''m5'' 95, row ''m6'' 96]"
    by (simp add: archive_def built_def world_def)
  have an: "answers (database (ctx archive))" by (simp add: archive_def built_def world_def)
  have ok: "fst (on_message_deleted archive (live ''A'' ''m5'' 99)) = None"
    "fst (on_message_updated archive ((live ''A'' ''m5'' 99)\<lparr>Session.content := ''bye''\<rparr>)) = None"
    using an by (simp_all add: on_message_deleted_def on_message_updated_def db_set_def)
  have r: "same_message (live ''A'' ''m5'' 99) (row ''m5'' 95)"
    "Message.deleted (row ''m5'' 95) = 0" "Message.content (row ''m5'' 95) = ''hello''"
    by (simp_all add: same_message_def live_def row_def plain_adapt_def msg_def)
  show ?thesis using t ok r by (simp add: listeners_frame)
qed

subsection \<open>C10: what the notification carries\<close>

text \<open>
  C10 says that the \<^verbatim>\<open>chat/message\<close> event of a batch carries every row of the batch,
  also the rows that the filter keeps out of the store. In the service as its
  constructor builds it the filter throws before anything is written or emitted (the
  defect of C7). Here the batch has two messages, the first of them 90 old: both are
  converted, \<^verbatim>\<open>flush\<close> ends with the \<^verbatim>\<open>TypeError\<close>, nothing is emitted and the table
  has no row.
\<close>

theorem no_notification_without_config:
  "adapted (built [] silent) pending (buffer pending) = [row ''m0'' 10, row ''m8'' 98] \<and>
   flush (built [] silent) pending [] = (Some TypeError, built [] silent, pending\<lparr>buffer := []\<rparr>) \<and>
   emitted (built [] silent) = [] \<and>
   tables (database (built [] silent)) ''chat.message'' = []"
proof -
  have cf: "config (built [] silent) = None" by (simp add: built_def)
  have ne: "buffer pending \<noteq> []" by (simp add: pending_def)
  have a: "flush (built [] silent) pending [] = (Some TypeError, built [] silent, pending\<lparr>buffer := []\<rparr>)"
    using flush_without_config[OF cf ne, of "[]"] by simp
  have b: "adapted (built [] silent) pending (buffer pending) = [row ''m0'' 10, row ''m8'' 98]"
    by (simp add: adapted_def built_def world_def pending_def claimed_def actor_def
        SyncChannel_new_def row_def)
  have c: "emitted (built [] silent) = []" "tables (database (built [] silent)) ''chat.message'' = []"
    by (simp_all add: built_def world_def)
  from a b c show ?thesis by blast
qed

end
